theory Spec2Isabelle
  imports Main
begin

section \<open>The listener tables of the emitter\<close>

text \<open>
  \<^verbatim>\<open>mod.ts\<close> keeps two plain objects, \<^verbatim>\<open>onListeners\<close> and \<^verbatim>\<open>onceListeners\<close>, created by
  \<^verbatim>\<open>{}\<close>. Their own properties are named by events and hold an array of listeners or
  \<^verbatim>\<open>undefined\<close> (what \<^verbatim>\<open>removeAllListeners\<close> stores). Reading a name that is not an own
  property goes to \<^verbatim>\<open>Object.prototype\<close>, which answers with a function for names such as
  \<^verbatim>\<open>toString\<close> and with the prototype object itself for \<^verbatim>\<open>__proto__\<close>.

  Event names are strings, the key type of \<^verbatim>\<open>DefaultListener\<close>. A listener is a value
  compared by identity, here by equality; what its body does when it is called is a parameter
  of \<^verbatim>\<open>emit\<close>.
\<close>

datatype val = Undefined | Array nat | Function nat | Prototype

text \<open>
  \<open>Array a\<close> is the array object with the address \<open>a\<close>, \<open>Function n\<close> an inherited
  function whose \<^verbatim>\<open>length\<close> is \<open>n\<close>, and \<open>Prototype\<close> is \<^verbatim>\<open>Object.prototype\<close>.

  \<^verbatim>\<open>Object.keys\<close> lists the array-index keys first, in ascending numeric order, and then
  the other string keys in the order of their creation. An array index is the canonical
  decimal form of an integer below \<open>2^32 - 1\<close>.
\<close>

definition is_digit :: "char \<Rightarrow> bool" where
  "is_digit c = (48 \<le> (of_char c :: nat) \<and> (of_char c :: nat) \<le> 57)"

definition digit_of :: "char \<Rightarrow> nat" where
  "digit_of c = of_char c - 48"

definition array_index :: "string \<Rightarrow> nat option" where
  "array_index k =
     (if k = [] \<or> \<not> list_all is_digit k \<or> (hd k = CHR ''0'' \<and> 1 < length k) then None
      else let n = foldl (\<lambda>a c. 10 * a + digit_of c) 0 k
           in if n < 2 ^ 32 - 1 then Some n else None)"

definition key_before :: "string \<Rightarrow> string \<Rightarrow> bool" where
  "key_before k k' =
     (case array_index k of
        None \<Rightarrow> False
      | Some i \<Rightarrow> (case array_index k' of None \<Rightarrow> True | Some j \<Rightarrow> i < j))"

fun create_prop :: "string \<Rightarrow> 'v \<Rightarrow> (string \<times> 'v) list \<Rightarrow> (string \<times> 'v) list" where
  "create_prop k v [] = [(k, v)]"
| "create_prop k v (p # ps) =
     (if key_before k (fst p) then (k, v) # p # ps else p # create_prop k v ps)"

fun replace_prop :: "string \<Rightarrow> 'v \<Rightarrow> (string \<times> 'v) list \<Rightarrow> (string \<times> 'v) list" where
  "replace_prop k v [] = []"
| "replace_prop k v (p # ps) =
     (if fst p = k then (k, v) # ps else p # replace_prop k v ps)"

text \<open>
  \<^verbatim>\<open>obj[k] = v\<close>: an own property keeps its place and takes the value. Otherwise the name
  \<^verbatim>\<open>__proto__\<close> reaches the setter of \<^verbatim>\<open>Object.prototype\<close>, which ignores \<^verbatim>\<open>undefined\<close> and
  creates nothing (no method assigns an array there: it assigns one only where the read is
  falsy, and the read of \<^verbatim>\<open>__proto__\<close> is the prototype object). Every other name becomes
  a new own property; the functions of \<^verbatim>\<open>Object.prototype\<close> are writable, so a new own
  property shadows them.
\<close>

definition set_prop :: "string \<Rightarrow> 'v \<Rightarrow> (string \<times> 'v) list \<Rightarrow> (string \<times> 'v) list" where
  "set_prop k v ps =
     (if k \<in> set (map fst ps) then replace_prop k v ps
      else if k = ''__proto__'' then ps
      else create_prop k v ps)"

definition object_keys :: "(string \<times> 'v) list \<Rightarrow> string list" where
  "object_keys ps = map fst ps"

text \<open>The function properties of \<^verbatim>\<open>Object.prototype\<close>, each with its \<^verbatim>\<open>length\<close>.\<close>

definition prototype_functions :: "(string \<times> nat) list" where
  "prototype_functions =
     [(''constructor'', 1), (''__defineGetter__'', 2), (''__defineSetter__'', 2),
      (''hasOwnProperty'', 1), (''__lookupGetter__'', 1), (''__lookupSetter__'', 1),
      (''isPrototypeOf'', 1), (''propertyIsEnumerable'', 1), (''toString'', 0),
      (''valueOf'', 0), (''toLocaleString'', 0)]"

definition object_prototype :: "string \<Rightarrow> val" where
  "object_prototype k =
     (if k = ''__proto__'' then Prototype
      else case map_of prototype_functions k of None \<Rightarrow> Undefined | Some n \<Rightarrow> Function n)"

text \<open>
  A table is one of the two objects together with the arrays its methods have created for
  it. An array is created by \<^verbatim>\<open>this.onListeners[event] = []\<close> or by the same statement for
  \<^verbatim>\<open>onceListeners\<close> and is never stored anywhere else, so each table keeps its own arrays,
  by address. An array that is no longer the value of a property still exists: a
  \<^verbatim>\<open>forEach\<close> that is running over it goes on reading it.
\<close>

record 'l table =
  props :: "(string \<times> val) list"
  arrays :: "nat \<Rightarrow> 'l list"
  fresh :: nat

definition empty_table :: "'l table" where
  "empty_table = \<lparr>props = [], arrays = (\<lambda>a. []), fresh = 0\<rparr>"

text \<open>\<^verbatim>\<open>obj[k]\<close>: the own property, or else what \<^verbatim>\<open>Object.prototype\<close> has under the name.\<close>

definition get_prop :: "'l table \<Rightarrow> string \<Rightarrow> val" where
  "get_prop t k = (case map_of (props t) k of None \<Rightarrow> object_prototype k | Some v \<Rightarrow> v)"

text \<open>\<^verbatim>\<open>!v\<close> for the values a table can give.\<close>

definition falsy :: "val \<Rightarrow> bool" where
  "falsy v = (v = Undefined)"

text \<open>\<^verbatim>\<open>v?.length\<close>; \<open>None\<close> is \<^verbatim>\<open>undefined\<close>.\<close>

definition js_length :: "'l table \<Rightarrow> val \<Rightarrow> nat option" where
  "js_length t v =
     (case v of
        Undefined \<Rightarrow> None
      | Array a \<Rightarrow> Some (length (arrays t a))
      | Function n \<Rightarrow> Some n
      | Prototype \<Rightarrow> None)"

text \<open>\<^verbatim>\<open>obj[k] = []\<close> and \<^verbatim>\<open>obj[k] = undefined\<close>.\<close>

definition assign_new_array :: "string \<Rightarrow> 'l table \<Rightarrow> 'l table" where
  "assign_new_array k t =
     t\<lparr>props := set_prop k (Array (fresh t)) (props t),
       arrays := (arrays t)(fresh t := []),
       fresh := Suc (fresh t)\<rparr>"

definition assign_undefined :: "string \<Rightarrow> 'l table \<Rightarrow> 'l table" where
  "assign_undefined k t = t\<lparr>props := set_prop k Undefined (props t)\<rparr>"

text \<open>
  The array of listeners a table holds for an event, for stating properties: empty when the
  table gives no array.
\<close>

definition array_of :: "'l table \<Rightarrow> string \<Rightarrow> 'l list" where
  "array_of t k = (case get_prop t k of Array a \<Rightarrow> arrays t a | _ \<Rightarrow> [])"

text \<open>
  The table gives \<^verbatim>\<open>undefined\<close> or an array for the event, and not something inherited from
  \<^verbatim>\<open>Object.prototype\<close>.
\<close>

definition listed :: "'l table \<Rightarrow> string \<Rightarrow> bool" where
  "listed t k = (case get_prop t k of Undefined \<Rightarrow> True | Array a \<Rightarrow> True | _ \<Rightarrow> False)"

section \<open>Arrays\<close>

text \<open>\<^verbatim>\<open>Array.prototype.indexOf\<close>; \<open>None\<close> stands for \<open>-1\<close>.\<close>

fun indexOf :: "'a list \<Rightarrow> 'a \<Rightarrow> nat option" where
  "indexOf [] x = None"
| "indexOf (y # ys) x = (if y = x then Some 0 else map_option Suc (indexOf ys x))"

text \<open>\<^verbatim>\<open>arr.splice(index, 1)\<close>, for the array left behind.\<close>

definition splice1 :: "'a list \<Rightarrow> nat \<Rightarrow> 'a list" where
  "splice1 arr index = take index arr @ drop (Suc index) arr"

text \<open>\<^verbatim>\<open>a.filter((v, i, a) => a.indexOf(v) === i)\<close>.\<close>

definition filter_first_index :: "'a list \<Rightarrow> 'a list" where
  "filter_first_index a =
     map (\<lambda>i. a ! i) (filter (\<lambda>i. indexOf a (a ! i) = Some i) [0..<length a])"

section \<open>Completions\<close>

text \<open>
  The module throws a plain \<^verbatim>\<open>Error\<close> with a message; calling something that is not a
  function, or reading a property of \<^verbatim>\<open>undefined\<close>, throws a \<^verbatim>\<open>TypeError\<close>. A method that
  mutates the emitter and then throws leaves the mutation behind, so every method returns its
  completion together with the emitter it leaves.
\<close>

datatype error = Error string | TypeError

datatype 'r completion = Returns 'r | Throws error

abbreviation Returns_this :: "unit completion" where
  "Returns_this \<equiv> Returns ()"

text \<open>
  \<^verbatim>\<open>Array.prototype.forEach\<close> over an array that the callback can change. It reads the
  length once, before the first call, and then visits the indices \<open>0, 1, \<dots>\<close> below it: it
  calls the callback on the element it finds at an index of the array as it then is, and
  passes over an index the array no longer has. A callback that throws ends the loop. The
  state is threaded through the callbacks; \<open>arr\<close> reads the array from the state, and the
  calls of listeners that the callbacks report are collected.
\<close>

function forEach ::
  "('s \<Rightarrow> 'l list) \<Rightarrow> ('l \<Rightarrow> 's \<Rightarrow> (unit completion \<times> 'c list) \<times> 's) \<Rightarrow> nat \<Rightarrow> nat \<Rightarrow> 's \<Rightarrow> 'c list
     \<Rightarrow> (unit completion \<times> 'c list) \<times> 's"
where
  "forEach arr callback len k s calls =
     (if k < len then
        (if k < length (arr s) then
           (let r = callback (arr s ! k) s
            in case fst (fst r) of
                 Throws err \<Rightarrow> ((Throws err, calls @ snd (fst r)), snd r)
               | Returns u \<Rightarrow> forEach arr callback len (Suc k) (snd r) (calls @ snd (fst r)))
         else forEach arr callback len (Suc k) s calls)
      else ((Returns_this, calls), s))"
  by pat_completeness auto
termination
  by (relation "measure (\<lambda>(arr, callback, len, k, s, calls). len - k)") auto

section \<open>The emitter\<close>

text \<open>
  The limit \<^verbatim>\<open>maxListeners\<close> is a number of listeners; the model takes it as an integer. A
  new emitter reads the static \<^verbatim>\<open>defaultMaxListeners\<close>, which the module sets to 10.
\<close>

record 'l emitter =
  onListeners :: "'l table"
  onceListeners :: "'l table"
  maxListeners :: int

definition defaultMaxListeners :: int where
  "defaultMaxListeners = 10"

definition new_emitter :: "'l emitter" where
  "new_emitter =
     \<lparr>onListeners = empty_table, onceListeners = empty_table,
      maxListeners = defaultMaxListeners\<rparr>"

function decimal :: "nat \<Rightarrow> string" where
  "decimal n =
     (if n < 10 then [char_of (48 + n)] else decimal (n div 10) @ [char_of (48 + n mod 10)])"
  by pat_completeness auto
termination
  by (relation "measure (\<lambda>n. n)") auto

definition leak_message :: "nat \<Rightarrow> string" where
  "leak_message n =
     ''Possible EventEmitter memory leak detected. '' @ decimal n @
     '' test listeners added to [EventEmitter]. Use emitter.setMaxListeners() to increase limit''"

text \<open>
  The three statements that the four adding methods share, on the table of the method; \<open>ins\<close>
  is \<^verbatim>\<open>push\<close> or \<^verbatim>\<open>unshift\<close>.
  \<^verbatim>\<open>if (!this.t[event]) this.t[event] = []\<close>;
  \<^verbatim>\<open>this.t[event]?.push(listener)\<close>, which throws a \<^verbatim>\<open>TypeError\<close> when the value is not
  \<^verbatim>\<open>undefined\<close> and has no \<^verbatim>\<open>push\<close>;
  \<^verbatim>\<open>if (this.t[event]!.length > this.maxListeners) throw new Error(...)\<close>, which throws a
  \<^verbatim>\<open>TypeError\<close> when the value is \<^verbatim>\<open>undefined\<close>.
\<close>

definition push :: "'l \<Rightarrow> 'l list \<Rightarrow> 'l list" where
  "push listener arr = arr @ [listener]"

definition unshift :: "'l \<Rightarrow> 'l list \<Rightarrow> 'l list" where
  "unshift listener arr = listener # arr"

definition add_to ::
  "('l \<Rightarrow> 'l list \<Rightarrow> 'l list) \<Rightarrow> string \<Rightarrow> 'l \<Rightarrow> int \<Rightarrow> 'l table \<Rightarrow> unit completion \<times> 'l table"
where
  "add_to ins event listener limit t =
     (let t1 = (if falsy (get_prop t event) then assign_new_array event t else t)
      in case get_prop t1 event of
           Undefined \<Rightarrow> (Throws TypeError, t1)
         | Array a \<Rightarrow>
             (let t2 = t1\<lparr>arrays := (arrays t1)(a := ins listener (arrays t1 a))\<rparr>
              in (if limit < int (length (arrays t2 a))
                  then Throws (Error (leak_message (length (arrays t2 a))))
                  else Returns_this,
                  t2))
         | Function n \<Rightarrow> (Throws TypeError, t1)
         | Prototype \<Rightarrow> (Throws TypeError, t1))"

definition once :: "string \<Rightarrow> 'l \<Rightarrow> 'l emitter \<Rightarrow> unit completion \<times> 'l emitter" where
  "once event listener s =
     (case add_to push event listener (maxListeners s) (onceListeners s) of
        (c, t) \<Rightarrow> (c, s\<lparr>onceListeners := t\<rparr>))"

definition on :: "string \<Rightarrow> 'l \<Rightarrow> 'l emitter \<Rightarrow> unit completion \<times> 'l emitter" where
  "on event listener s =
     (case add_to push event listener (maxListeners s) (onListeners s) of
        (c, t) \<Rightarrow> (c, s\<lparr>onListeners := t\<rparr>))"

definition prependListener :: "string \<Rightarrow> 'l \<Rightarrow> 'l emitter \<Rightarrow> unit completion \<times> 'l emitter" where
  "prependListener event listener s =
     (case add_to unshift event listener (maxListeners s) (onListeners s) of
        (c, t) \<Rightarrow> (c, s\<lparr>onListeners := t\<rparr>))"

definition prependOnceListener :: "string \<Rightarrow> 'l \<Rightarrow> 'l emitter \<Rightarrow> unit completion \<times> 'l emitter" where
  "prependOnceListener event listener s =
     (case add_to unshift event listener (maxListeners s) (onceListeners s) of
        (c, t) \<Rightarrow> (c, s\<lparr>onceListeners := t\<rparr>))"

text \<open>
  One block of \<^verbatim>\<open>off\<close>, on its table. With \<open>Some c\<close> the method ends with the completion
  \<open>c\<close>: the block returns when the listener is not in the array, and it throws a
  \<^verbatim>\<open>TypeError\<close> when the value has no \<^verbatim>\<open>indexOf\<close>. With \<open>None\<close> the method goes on after the
  block: the value was falsy, or the listener has been spliced out of the array.
\<close>

definition off_block :: "string \<Rightarrow> 'l \<Rightarrow> 'l table \<Rightarrow> unit completion option \<times> 'l table" where
  "off_block event listener t =
     (case get_prop t event of
        Undefined \<Rightarrow> (None, t)
      | Array a \<Rightarrow>
          (case indexOf (arrays t a) listener of
             None \<Rightarrow> (Some Returns_this, t)
           | Some index \<Rightarrow> (None, t\<lparr>arrays := (arrays t)(a := splice1 (arrays t a) index)\<rparr>))
      | Function n \<Rightarrow> (Some (Throws TypeError), t)
      | Prototype \<Rightarrow> (Some (Throws TypeError), t))"

text \<open>\<^verbatim>\<open>off\<close>: the block for \<^verbatim>\<open>onceListeners\<close>, then the block for \<^verbatim>\<open>onListeners\<close>.\<close>

definition off :: "string \<Rightarrow> 'l \<Rightarrow> 'l emitter \<Rightarrow> unit completion \<times> 'l emitter" where
  "off event listener s =
     (case off_block event listener (onceListeners s) of
        (Some c, t) \<Rightarrow> (c, s\<lparr>onceListeners := t\<rparr>)
      | (None, t) \<Rightarrow>
          (case off_block event listener (onListeners s) of
             (Some c, t') \<Rightarrow> (c, s\<lparr>onListeners := t', onceListeners := t\<rparr>)
           | (None, t') \<Rightarrow> (Returns_this, s\<lparr>onListeners := t', onceListeners := t\<rparr>)))"

definition addListener :: "string \<Rightarrow> 'l \<Rightarrow> 'l emitter \<Rightarrow> unit completion \<times> 'l emitter" where
  "addListener = on"

definition removeListener :: "string \<Rightarrow> 'l \<Rightarrow> 'l emitter \<Rightarrow> unit completion \<times> 'l emitter" where
  "removeListener = off"

text \<open>
  Calling a listener runs its body. What a body does is a parameter: given the listener, the
  arguments and the emitter, it says how the call completes, which calls of listeners were
  made inside it (by an \<^verbatim>\<open>emit\<close> in the body), and the emitter it leaves. A body can so call
  any method of the emitter, and can throw.
\<close>

type_synonym ('l, 'a) bodies =
  "'l \<Rightarrow> 'a \<Rightarrow> 'l emitter \<Rightarrow> (unit completion \<times> ('l \<times> 'a) list) \<times> 'l emitter"

text \<open>The bodies that return without touching the emitter.\<close>

definition inert :: "('l, 'a) bodies" where
  "inert listener args s = ((Returns_this, []), s)"

text \<open>The callback of the first loop of \<^verbatim>\<open>emit\<close>: \<^verbatim>\<open>listener => listener(...args)\<close>.\<close>

definition call_listener ::
  "('l, 'a) bodies \<Rightarrow> 'a \<Rightarrow> 'l \<Rightarrow> 'l emitter \<Rightarrow> (unit completion \<times> ('l \<times> 'a) list) \<times> 'l emitter"
where
  "call_listener body args listener s =
     (let r = body listener args s
      in ((fst (fst r), (listener, args) # snd (fst r)), snd r))"

text \<open>
  The callback of the second loop:
  \<^verbatim>\<open>listener => { listener(...args); this.off(event, listener) }\<close>.
\<close>

definition call_then_off ::
  "('l, 'a) bodies \<Rightarrow> string \<Rightarrow> 'a \<Rightarrow> 'l \<Rightarrow> 'l emitter
     \<Rightarrow> (unit completion \<times> ('l \<times> 'a) list) \<times> 'l emitter"
where
  "call_then_off body event args listener s =
     (let r = body listener args s
      in case fst (fst r) of
           Throws err \<Rightarrow> ((Throws err, (listener, args) # snd (fst r)), snd r)
         | Returns u \<Rightarrow>
             (case off event listener (snd r) of
                (c, s') \<Rightarrow> ((c, (listener, args) # snd (fst r)), s')))"

text \<open>
  \<^verbatim>\<open>emit\<close> returns its boolean or throws; the model adds the calls of listeners made, in
  order, and the emitter left. Each loop runs over the array that the property held when the
  loop began.
\<close>

definition emit ::
  "('l, 'a) bodies \<Rightarrow> string \<Rightarrow> 'a \<Rightarrow> 'l emitter \<Rightarrow> (bool completion \<times> ('l \<times> 'a) list) \<times> 'l emitter"
where
  "emit body event args s =
     (let v = get_prop (onListeners s) event
      in if falsy v \<or> js_length (onListeners s) v = Some 0 then ((Returns False, []), s)
         else case v of
           Array a \<Rightarrow>
             (let r = forEach (\<lambda>s. arrays (onListeners s) a) (call_listener body args)
                        (length (arrays (onListeners s) a)) 0 s []
              in case fst (fst r) of
                   Throws err \<Rightarrow> ((Throws err, snd (fst r)), snd r)
                 | Returns u \<Rightarrow>
                     (let w = get_prop (onceListeners (snd r)) event
                      in if falsy w \<or> js_length (onceListeners (snd r)) w = Some 0
                         then ((Returns True, snd (fst r)), snd r)
                         else case w of
                           Array b \<Rightarrow>
                             (let r' = forEach (\<lambda>s. arrays (onceListeners s) b)
                                         (call_then_off body event args)
                                         (length (arrays (onceListeners (snd r)) b)) 0 (snd r)
                                         (snd (fst r))
                              in case fst (fst r') of
                                   Throws err \<Rightarrow> ((Throws err, snd (fst r')), snd r')
                                 | Returns u' \<Rightarrow> ((Returns True, snd (fst r')), snd r'))
                         | _ \<Rightarrow> ((Throws TypeError, snd (fst r)), snd r)))
         | _ \<Rightarrow> ((Throws TypeError, []), s))"

definition returned :: "('r completion \<times> 'c list) \<times> 's \<Rightarrow> 'r completion" where
  "returned r = fst (fst r)"

definition invoked :: "('r completion \<times> 'c list) \<times> 's \<Rightarrow> 'c list" where
  "invoked r = snd (fst r)"

text \<open>\<^verbatim>\<open>Object.keys(obj).filter(k => obj[k] !== undefined)\<close>.\<close>

definition defined_keys :: "'l table \<Rightarrow> string list" where
  "defined_keys t = filter (\<lambda>k. get_prop t k \<noteq> Undefined) (object_keys (props t))"

text \<open>The table has an own property of the name whose value is not \<^verbatim>\<open>undefined\<close>.\<close>

definition own_defined :: "'l table \<Rightarrow> string \<Rightarrow> bool" where
  "own_defined t k = (case map_of (props t) k of None \<Rightarrow> False | Some v \<Rightarrow> v \<noteq> Undefined)"

definition eventNames :: "'l emitter \<Rightarrow> string list \<times> 'l emitter" where
  "eventNames s =
     (filter_first_index (defined_keys (onListeners s) @ defined_keys (onceListeners s)), s)"

text \<open>\<^verbatim>\<open>this.t[event]?.length ?? 0\<close>.\<close>

definition length_or_0 :: "'l table \<Rightarrow> string \<Rightarrow> nat" where
  "length_or_0 t event = (case js_length t (get_prop t event) of None \<Rightarrow> 0 | Some n \<Rightarrow> n)"

definition listenerCount :: "string \<Rightarrow> 'l emitter \<Rightarrow> nat \<times> 'l emitter" where
  "listenerCount event s =
     (length_or_0 (onListeners s) event + length_or_0 (onceListeners s) event, s)"

text \<open>
  \<^verbatim>\<open>listeners\<close>: \<^verbatim>\<open>(this.onListeners[event] ?? []).concat(this.onceListeners[event] ?? [])\<close>.
  The receiver must have \<^verbatim>\<open>concat\<close>, or the call throws a \<^verbatim>\<open>TypeError\<close>; \<^verbatim>\<open>concat\<close> appends
  the elements of an array argument and appends any other argument as one element.
\<close>

datatype 'l element = Listener 'l | Inherited val

definition listeners :: "string \<Rightarrow> 'l emitter \<Rightarrow> 'l element list completion \<times> 'l emitter" where
  "listeners event s =
     (let argument =
            (case get_prop (onceListeners s) event of
               Undefined \<Rightarrow> []
             | Array b \<Rightarrow> map Listener (arrays (onceListeners s) b)
             | Function n \<Rightarrow> [Inherited (Function n)]
             | Prototype \<Rightarrow> [Inherited Prototype])
      in case get_prop (onListeners s) event of
           Undefined \<Rightarrow> (Returns ([] @ argument), s)
         | Array a \<Rightarrow> (Returns (map Listener (arrays (onListeners s) a) @ argument), s)
         | Function n \<Rightarrow> (Throws TypeError, s)
         | Prototype \<Rightarrow> (Throws TypeError, s))"

text \<open>
  The rest parameter \<^verbatim>\<open>events\<close> of \<^verbatim>\<open>removeAllListeners\<close> is an array, and an array is
  truthy whatever its length.
\<close>

definition truthy_array :: "'a list \<Rightarrow> bool" where
  "truthy_array a = True"

definition remove_event :: "'l emitter \<Rightarrow> string \<Rightarrow> 'l emitter" where
  "remove_event s event =
     s\<lparr>onListeners := assign_undefined event (onListeners s),
       onceListeners := assign_undefined event (onceListeners s)\<rparr>"

definition removeAllListeners :: "string list \<Rightarrow> 'l emitter \<Rightarrow> unit completion \<times> 'l emitter" where
  "removeAllListeners events s =
     (if \<not> truthy_array events
      then (Returns_this, s\<lparr>onListeners := empty_table, onceListeners := empty_table\<rparr>)
      else (Returns_this, foldl remove_event s events))"

definition setMaxListeners :: "int \<Rightarrow> 'l emitter \<Rightarrow> unit completion \<times> 'l emitter" where
  "setMaxListeners n s = (Returns_this, s\<lparr>maxListeners := n\<rparr>)"

definition getMaxListeners :: "'l emitter \<Rightarrow> int \<times> 'l emitter" where
  "getMaxListeners s = (maxListeners s, s)"

text \<open>The emitter a method call leaves, on which the next call runs.\<close>

definition after :: "'r \<times> 'l emitter \<Rightarrow> 'l emitter" where
  "after r = snd r"

section \<open>Emitters and bodies for stating properties\<close>


text \<open>
  The table holds no listener for the event and does not inherit the name: it gives
  \<^verbatim>\<open>undefined\<close> or an empty array.
\<close>

definition no_listener :: "'l table \<Rightarrow> string \<Rightarrow> bool" where
  "no_listener t e \<longleftrightarrow> listed t e \<and> array_of t e = []"

text \<open>
  An object has each of its keys once. The list of properties that models it can repeat a
  key; the tables of an emitter that the methods have built from a new one do not.
\<close>

definition well_formed :: "'l emitter \<Rightarrow> bool" where
  "well_formed s \<longleftrightarrow>
     distinct (object_keys (props (onListeners s)))
     \<and> distinct (object_keys (props (onceListeners s)))"

text \<open>
  Bodies in which one listener does something and the others nothing: it throws, or it
  removes itself with \<^verbatim>\<open>off\<close>.
\<close>

definition throwing :: "'l \<Rightarrow> ('l, 'a) bodies" where
  "throwing who listener args s =
     (if listener = who then ((Throws (Error ''thrown by the listener''), []), s)
      else inert listener args s)"

definition removing_itself :: "string \<Rightarrow> 'l \<Rightarrow> ('l, 'a) bodies" where
  "removing_itself event who listener args s =
     (if listener = who then ((fst (off event who s), []), after (off event who s))
      else inert listener args s)"

text \<open>Emitters used as examples. The listeners are named by strings.\<close>

definition limit_zero :: "string emitter" where
  "limit_zero = after (setMaxListeners 0 new_emitter)"

definition on_f_once_g :: "string emitter" where
  "on_f_once_g = after (once ''e'' ''g'' (after (on ''e'' ''f'' new_emitter)))"

definition on_f_once_f :: "string emitter" where
  "on_f_once_f = after (once ''e'' ''f'' (after (on ''e'' ''f'' new_emitter)))"

definition on_h_once_f_g :: "string emitter" where
  "on_h_once_f_g =
     after (once ''e'' ''g'' (after (once ''e'' ''f'' (after (on ''e'' ''h'' new_emitter)))))"


definition on_on_once_a :: "string emitter" where
  "on_on_once_a =
     after (once ''a'' ''h'' (after (on ''a'' ''g'' (after (on ''a'' ''f'' new_emitter)))))"

definition on_a_once_a_b :: "string emitter" where
  "on_a_once_a_b =
     after (once ''b'' ''h'' (after (once ''a'' ''g'' (after (on ''a'' ''f'' new_emitter)))))"

section \<open>Properties of the tables\<close>

lemma replace_prop_lookup:
  "map_of (replace_prop k v ps) k' =
     (if k' = k \<and> k \<in> fst ` set ps then Some v else map_of ps k')"
  by (induction ps) force+

lemma create_prop_lookup:
  "k \<notin> fst ` set ps \<Longrightarrow>
   map_of (create_prop k v ps) k' = (if k' = k then Some v else map_of ps k')"
  by (induction ps) auto

lemma set_prop_lookup:
  "map_of (set_prop k v ps) k' =
     (if k' = k \<and> (k \<in> fst ` set ps \<or> k \<noteq> ''__proto__'') then Some v else map_of ps k')"
  by (simp add: set_prop_def replace_prop_lookup create_prop_lookup)

lemma replace_prop_keys: "map fst (replace_prop k v ps) = map fst ps"
  by (induction ps) auto

lemma create_prop_keys: "set (map fst (create_prop k v ps)) = insert k (set (map fst ps))"
  by (induction ps) auto

lemma create_prop_distinct:
  "k \<notin> fst ` set ps \<Longrightarrow> distinct (map fst ps) \<Longrightarrow> distinct (map fst (create_prop k v ps))"
proof (induction ps)
  case Nil
  then show ?case by simp
next
  case (Cons p ps)
  have "set (map fst (create_prop k v ps)) = insert k (set (map fst ps))"
    by (rule create_prop_keys)
  with Cons show ?case by auto
qed

lemma set_prop_distinct:
  "distinct (object_keys ps) \<Longrightarrow> distinct (object_keys (set_prop k v ps))"
  by (simp add: set_prop_def object_keys_def replace_prop_keys create_prop_distinct)

lemma proto_not_undefined: "object_prototype ''__proto__'' = Prototype"
  by (simp add: object_prototype_def)




lemma get_prop_set_arrays [simp]: "get_prop (t\<lparr>arrays := h\<rparr>) k = get_prop t k"
  by (simp add: get_prop_def)

lemma listed_set_arrays [simp]: "listed (t\<lparr>arrays := h\<rparr>) k = listed t k"
  by (simp add: listed_def)



lemma array_of_nonempty:
  assumes "array_of t k \<noteq> []"
  obtains a where "get_prop t k = Array a" "arrays t a = array_of t k" "listed t k"
  using assms by (cases "get_prop t k") (auto simp: array_of_def listed_def)

section \<open>Adding\<close>



section \<open>Iteration\<close>

declare forEach.simps [simp del]

lemma forEach_extends:
  "\<exists>more. invoked (forEach arr callback len k s calls) = calls @ more"
proof (induction "len - k" arbitrary: k s calls)
  case 0
  then show ?case by (simp add: forEach.simps [of arr callback len k] invoked_def Let_def)
next
  case (Suc n)
  then have k: "k < len" and n: "n = len - Suc k" by simp_all
  show ?case
  proof (cases "k < length (arr s)")
    case False
    from Suc.hyps(1) [OF n, of s calls] k False show ?thesis
      by (simp add: forEach.simps [of arr callback len k] Let_def)
  next
    case True
    let ?r = "callback (arr s ! k) s"
    show ?thesis
    proof (cases "fst (fst ?r)")
      case (Throws err)
      with k True show ?thesis
        by (simp add: forEach.simps [of arr callback len k] invoked_def Let_def)
    next
      case (Returns u)
      from Suc.hyps(1) [OF n, of "snd ?r" "calls @ snd (fst ?r)"]
      obtain more where
        "invoked (forEach arr callback len (Suc k) (snd ?r) (calls @ snd (fst ?r)))
           = (calls @ snd (fst ?r)) @ more"
        by blast
      with k True Returns show ?thesis
        by (simp add: forEach.simps [of arr callback len k] Let_def)
    qed
  qed
qed

lemma forEach_unchanging:
  assumes "\<forall>l\<in>set (arr s). callback l s = ((Returns_this, [f l]), s)"
  shows "forEach arr callback len k s calls =
           ((Returns_this, calls @ map f (drop k (take len (arr s)))), s)"
  using assms
proof (induction "len - k" arbitrary: k calls)
  case 0
  then show ?case by (simp add: forEach.simps [of arr callback len k] Let_def)
next
  case (Suc n)
  then have k: "k < len" and n: "n = len - Suc k" by simp_all
  show ?case
  proof (cases "k < length (arr s)")
    case False
    from Suc.hyps(1) [OF n Suc.prems, of calls] k False show ?thesis
      by (simp add: forEach.simps [of arr callback len k] Let_def)
  next
    case True
    then have "callback (arr s ! k) s = ((Returns_this, [f (arr s ! k)]), s)"
      using Suc.prems by simp
    moreover from k True
    have "drop k (take len (arr s)) = arr s ! k # drop (Suc k) (take len (arr s))"
      using Cons_nth_drop_Suc [of k "take len (arr s)"] by simp
    ultimately show ?thesis
      using Suc.hyps(1) [OF n Suc.prems, of "calls @ [f (arr s ! k)]"] k True
      by (simp add: forEach.simps [of arr callback len k] Let_def)
  qed
qed

lemma call_listener_inert:
  "body l args = inert l args \<Longrightarrow> call_listener body args l s = ((Returns_this, [(l, args)]), s)"
  by (simp add: call_listener_def inert_def)

section \<open>Splicing\<close>

lemma indexOf_None_iff: "indexOf xs x = None \<longleftrightarrow> x \<notin> set xs"
  by (induction xs) auto

lemma indexOf_less: "indexOf xs x = Some i \<Longrightarrow> i < length xs"
  by (induction xs arbitrary: i) (auto split: if_splits)




lemma splice1_drop:
  "j \<le> k \<Longrightarrow> k < length xs \<Longrightarrow> drop (Suc k) (splice1 xs j) = drop (Suc (Suc k)) xs"
  by (simp add: splice1_def min_def)










section \<open>Emitting\<close>


lemma emit_persistent_inert:
  assumes "array_of (onListeners s) e \<noteq> []"
    and "\<forall>l\<in>set (array_of (onListeners s) e). body l args = inert l args"
  shows "emit body e args s =
    (let calls = map (\<lambda>l. (l, args)) (array_of (onListeners s) e);
         w = get_prop (onceListeners s) e
     in if falsy w \<or> js_length (onceListeners s) w = Some 0 then ((Returns True, calls), s)
        else case w of
          Array b \<Rightarrow>
            (let r' = forEach (\<lambda>s. arrays (onceListeners s) b) (call_then_off body e args)
                        (length (arrays (onceListeners s) b)) 0 s calls
             in case fst (fst r') of
                  Throws err \<Rightarrow> ((Throws err, snd (fst r')), snd r')
                | Returns u' \<Rightarrow> ((Returns True, snd (fst r')), snd r'))
        | _ \<Rightarrow> ((Throws TypeError, calls), s))"
proof -
  from assms(1) obtain a where a: "get_prop (onListeners s) e = Array a"
    "arrays (onListeners s) a = array_of (onListeners s) e"
    by (rule array_of_nonempty)
  let ?ons = "array_of (onListeners s) e"
  have "\<forall>l\<in>set (arrays (onListeners s) a).
          call_listener body args l s = ((Returns_this, [(\<lambda>l. (l, args)) l]), s)"
    using assms(2) a(2) by (simp add: call_listener_inert)
  from forEach_unchanging [of "\<lambda>s. arrays (onListeners s) a" s "call_listener body args"
      "\<lambda>l. (l, args)" "length ?ons" 0 "[]", OF this]
  have "forEach (\<lambda>s. arrays (onListeners s) a) (call_listener body args) (length ?ons) 0 s []
          = ((Returns_this, map (\<lambda>l. (l, args)) ?ons), s)"
    by (simp add: a(2))
  with a assms(1) show ?thesis
    by (cases "get_prop (onceListeners s) e")
       (simp_all add: emit_def falsy_def js_length_def Let_def)
qed

lemma emit_invoked_persistent:
  assumes "array_of (onListeners s) e \<noteq> []"
    and "\<forall>l\<in>set (array_of (onListeners s) e). body l args = inert l args"
  shows "take (length (array_of (onListeners s) e)) (invoked (emit body e args s))
           = map (\<lambda>l. (l, args)) (array_of (onListeners s) e)"
proof -
  let ?calls = "map (\<lambda>l. (l, args)) (array_of (onListeners s) e)"
  note unfold = emit_persistent_inert [of s e body args, OF assms]
  have "\<exists>more. invoked (emit body e args s) = ?calls @ more"
  proof (cases "get_prop (onceListeners s) e")
    case (Array b)
    let ?r = "forEach (\<lambda>s. arrays (onceListeners s) b) (call_then_off body e args)
                (length (arrays (onceListeners s) b)) 0 s ?calls"
    from forEach_extends [of "\<lambda>s. arrays (onceListeners s) b" "call_then_off body e args"
        "length (arrays (onceListeners s) b)" 0 s ?calls]
    obtain more where "snd (fst ?r) = ?calls @ more"
      by (auto simp: invoked_def)
    with Array show ?thesis
      by (cases "fst (fst ?r)")
         (simp_all add: unfold invoked_def Let_def)
  qed (simp_all add: unfold invoked_def Let_def falsy_def js_length_def)
  then obtain more where "invoked (emit body e args s) = ?calls @ more" ..
  then show ?thesis by simp
qed

lemma emit_invokes_persistent:
  assumes "\<forall>x\<in>set (array_of (onListeners s) e). body x args = inert x args"
    and "l \<in> set (array_of (onListeners s) e)"
  shows "(l, args) \<in> set (invoked (emit body e args s))"
proof -
  from assms(2) have "array_of (onListeners s) e \<noteq> []" by auto
  from emit_invoked_persistent [of s e body args, OF this assms(1)] assms(2)
  have "(l, args) \<in> set (take (length (array_of (onListeners s) e)) (invoked (emit body e args s)))"
    by auto
  then show ?thesis by (rule in_set_takeD)
qed







lemmas run_simps =
  after_def on_def once_def prependListener_def prependOnceListener_def add_to_def push_def
  unshift_def off_def off_block_def emit_def call_listener_def call_then_off_def inert_def
  throwing_def removing_itself_def eventNames_def defined_keys_def listenerCount_def
  length_or_0_def listeners_def removeAllListeners_def setMaxListeners_def getMaxListeners_def
  new_emitter_def empty_table_def defaultMaxListeners_def set_prop_def get_prop_def
  object_prototype_def prototype_functions_def object_keys_def assign_new_array_def
  assign_undefined_def falsy_def js_length_def array_of_def listed_def no_listener_def
  splice1_def returned_def invoked_def truthy_array_def remove_event_def
  filter_first_index_def forEach.simps Let_def












section \<open>Prepending\<close>







section \<open>The limit\<close>









lemma leak_message_one:
  "leak_message 1 = ''Possible EventEmitter memory leak detected. 1 test listeners added to [EventEmitter]. Use emitter.setMaxListeners() to increase limit''"
  by code_simp



section \<open>Removing\<close>

text \<open>
  C1. With \<open>f\<close> in the persistent array of \<open>e\<close> and a one-shot array of \<open>e\<close> that holds only
  \<open>g\<close>, \<^verbatim>\<open>off(e, f)\<close> returns from the one-shot block and removes nothing: \<open>f\<close> stays
  registered. With \<open>f\<close> in both arrays of \<open>e\<close>, one \<^verbatim>\<open>off(e, f)\<close> removes both entries.
\<close>

theorem off_early_return_example:
  "fst (listeners ''e'' on_f_once_g) = Returns [Listener ''f'', Listener ''g'']
   \<and> off ''e'' ''f'' on_f_once_g = (Returns_this, on_f_once_g)
   \<and> fst (listeners ''e'' on_f_once_f) = Returns [Listener ''f'', Listener ''f'']
   \<and> fst (listeners ''e'' (after (off ''e'' ''f'' on_f_once_f))) = Returns []"
  by (simp add: on_f_once_g_def on_f_once_f_def run_simps)

section \<open>The second loop of emit\<close>

text \<open>
  C2. On an emitter with the persistent array \<open>[h]\<close> and the one-shot array \<open>[f, g]\<close> for
  \<open>e\<close>, and listeners whose bodies do nothing, \<^verbatim>\<open>emit(e, x)\<close> calls \<open>h\<close> and \<open>f\<close> and never
  calls \<open>g\<close>, and it leaves \<open>g\<close> in the one-shot array: removing \<open>f\<close> moves \<open>g\<close> to index 0,
  and the loop goes on at index 1.
\<close>

theorem emit_skips_one_shot_example:
  "props (onListeners on_h_once_f_g) = [(''e'', Array 0)]
   \<and> props (onceListeners on_h_once_f_g) = [(''e'', Array 0)]
   \<and> array_of (onListeners on_h_once_f_g) ''e'' = [''h'']
   \<and> array_of (onceListeners on_h_once_f_g) ''e'' = [''f'', ''g'']
   \<and> fst (emit inert ''e'' ''x'' on_h_once_f_g) = (Returns True, [(''h'', ''x''), (''f'', ''x'')])
   \<and> props (onListeners (after (emit inert ''e'' ''x'' on_h_once_f_g))) = [(''e'', Array 0)]
   \<and> props (onceListeners (after (emit inert ''e'' ''x'' on_h_once_f_g))) = [(''e'', Array 0)]
   \<and> array_of (onListeners (after (emit inert ''e'' ''x'' on_h_once_f_g))) ''e'' = [''h'']
   \<and> array_of (onceListeners (after (emit inert ''e'' ''x'' on_h_once_f_g))) ''e'' = [''g'']
   \<and> maxListeners (after (emit inert ''e'' ''x'' on_h_once_f_g)) = 10"
  by (simp add: on_h_once_f_g_def run_simps)

section \<open>Removing all listeners\<close>

text \<open>
  C4. \<^verbatim>\<open>removeAllListeners()\<close> with no event takes the branch that iterates over the events,
  since the empty array is truthy, and changes nothing: after \<^verbatim>\<open>on('a', f)\<close> the event
  \<open>a\<close> is still named and still has one listener.
\<close>

theorem removeAllListeners_no_events_example:
  "removeAllListeners [] (after (on ''a'' ''f'' new_emitter))
     = (Returns_this, after (on ''a'' ''f'' new_emitter))
   \<and> fst (eventNames (after (removeAllListeners [] (after (on ''a'' ''f'' new_emitter))))) = [''a'']
   \<and> fst (listenerCount ''a'' (after (removeAllListeners [] (after (on ''a'' ''f'' new_emitter))))) = 1"
  by (simp add: run_simps)

section \<open>The message of the limit\<close>

text \<open>
  C6. With the limit 0, \<^verbatim>\<open>on('foo', f)\<close> throws an error whose message gives the count 1 and
  the words \<open>test listeners\<close>; it does not name \<open>foo\<close>. The same call for the event \<open>bar\<close>
  throws the same error, and so do the three other adding methods.
\<close>

theorem leak_message_names_test_example:
  "fst (on ''foo'' ''f'' limit_zero) = Throws (Error
     ''Possible EventEmitter memory leak detected. 1 test listeners added to [EventEmitter]. Use emitter.setMaxListeners() to increase limit'')
   \<and> fst (on ''bar'' ''f'' limit_zero) = fst (on ''foo'' ''f'' limit_zero)
   \<and> fst (once ''foo'' ''f'' limit_zero) = fst (on ''foo'' ''f'' limit_zero)
   \<and> fst (prependListener ''foo'' ''f'' limit_zero) = fst (on ''foo'' ''f'' limit_zero)
   \<and> fst (prependOnceListener ''foo'' ''f'' limit_zero) = fst (on ''foo'' ''f'' limit_zero)"
  using leak_message_one by (simp add: limit_zero_def run_simps)

section \<open>Queries\<close>

text \<open>
  C10. The queries \<^verbatim>\<open>eventNames\<close>, \<^verbatim>\<open>listenerCount\<close>, \<^verbatim>\<open>listeners\<close> and
  \<^verbatim>\<open>getMaxListeners\<close> leave the emitter as they found it: both tables and the limit are the
  same after the call as before it, also when \<^verbatim>\<open>listeners\<close> throws.
\<close>

theorem queries_leave_emitter:
  "after (eventNames s) = s
   \<and> after (listenerCount e s) = s
   \<and> after (listeners e s) = s
   \<and> after (getMaxListeners s) = s"
  by (simp add: after_def eventNames_def listenerCount_def listeners_def getMaxListeners_def
      Let_def split: val.splits)

section \<open>De-duplication\<close>

lemma indexOf_append_in: "x \<in> set xs \<Longrightarrow> indexOf (xs @ ys) x = indexOf xs x"
  by (induction xs) auto

lemma indexOf_snoc_notin: "x \<notin> set xs \<Longrightarrow> indexOf (xs @ [x]) x = Some (length xs)"
  by (induction xs) auto

lemma filter_first_index_snoc:
  "filter_first_index (xs @ [x]) = filter_first_index xs @ (if x \<in> set xs then [] else [x])"
proof -
  have front: "filter (\<lambda>i. indexOf (xs @ [x]) ((xs @ [x]) ! i) = Some i) [0..<length xs]
      = filter (\<lambda>i. indexOf xs (xs ! i) = Some i) [0..<length xs]"
    by (rule filter_cong) (auto simp: nth_append indexOf_append_in)
  have front_map: "map (\<lambda>i. (xs @ [x]) ! i) (filter (\<lambda>i. indexOf xs (xs ! i) = Some i) [0..<length xs])
      = map (\<lambda>i. xs ! i) (filter (\<lambda>i. indexOf xs (xs ! i) = Some i) [0..<length xs])"
    by (rule map_cong) (auto simp: nth_append)
  have last: "indexOf (xs @ [x]) x = Some (length xs) \<longleftrightarrow> x \<notin> set xs"
  proof (cases "x \<in> set xs")
    case True
    then obtain i where "indexOf xs x = Some i"
      by (cases "indexOf xs x") (auto simp: indexOf_None_iff)
    with True indexOf_less [of xs x i] show ?thesis
      by (auto simp: indexOf_append_in)
  next
    case False
    then show ?thesis by (simp add: indexOf_snoc_notin)
  qed
  show ?thesis
    by (simp add: filter_first_index_def front front_map last)
qed

lemma filter_first_index_Nil: "filter_first_index [] = []"
  by (simp add: filter_first_index_def)

lemma filter_first_index_set: "set (filter_first_index xs) = set xs"
  by (induction xs rule: rev_induct) (auto simp: filter_first_index_Nil filter_first_index_snoc)

lemma filter_first_index_distinct: "distinct (filter_first_index xs)"
  by (induction xs rule: rev_induct)
     (auto simp: filter_first_index_Nil filter_first_index_snoc filter_first_index_set)

lemma filter_first_index_append:
  "distinct xs \<Longrightarrow> distinct ys \<Longrightarrow>
   filter_first_index (xs @ ys) = xs @ filter (\<lambda>y. y \<notin> set xs) ys"
proof (induction ys rule: rev_induct)
  case Nil
  then show ?case
    by (induction xs rule: rev_induct) (auto simp: filter_first_index_Nil filter_first_index_snoc)
next
  case (snoc y ys)
  then have "filter_first_index ((xs @ ys) @ [y])
      = (xs @ filter (\<lambda>y. y \<notin> set xs) ys) @ (if y \<in> set (xs @ ys) then [] else [y])"
    by (simp only: filter_first_index_snoc) simp
  with snoc.prems show ?case by simp
qed

lemma defined_keys_set: "set (defined_keys t) = {k. own_defined t k}"
proof -
  have "k \<in> set (object_keys (props t)) \<and> get_prop t k \<noteq> Undefined \<longleftrightarrow> own_defined t k" for k
  proof (cases "map_of (props t) k")
    case None
    then have "k \<notin> set (object_keys (props t))"
      by (simp add: object_keys_def map_of_eq_None_iff)
    with None show ?thesis by (simp add: own_defined_def)
  next
    case (Some v)
    then have "k \<in> set (object_keys (props t))"
      by (force simp: object_keys_def dest: map_of_SomeD)
    with Some show ?thesis by (simp add: own_defined_def get_prop_def)
  qed
  then show ?thesis by (auto simp: defined_keys_def)
qed

lemma defined_keys_distinct: "distinct (object_keys (props t)) \<Longrightarrow> distinct (defined_keys t)"
  by (simp add: defined_keys_def)

section \<open>Keys stay unique\<close>

lemma forEach_invariant:
  assumes "\<And>l s. P s \<Longrightarrow> P (snd (callback l s))" and "P s"
  shows "P (snd (forEach arr callback len k s calls))"
  using assms(2)
proof (induction "len - k" arbitrary: k s calls)
  case 0
  then show ?case by (simp add: forEach.simps [of arr callback len k])
next
  case (Suc n)
  then have k: "k < len" and n: "n = len - Suc k" by simp_all
  show ?case
  proof (cases "k < length (arr s)")
    case False
    from Suc.hyps(1) [OF n Suc.prems, of calls] k False show ?thesis
      by (simp add: forEach.simps [of arr callback len k])
  next
    case True
    let ?r = "callback (arr s ! k) s"
    from Suc.prems have step: "P (snd ?r)" by (rule assms(1))
    show ?thesis
    proof (cases "fst (fst ?r)")
      case (Throws err)
      with k True step show ?thesis
        by (simp add: forEach.simps [of arr callback len k] Let_def)
    next
      case (Returns u)
      from Suc.hyps(1) [OF n step, of "calls @ snd (fst ?r)"] k True Returns show ?thesis
        by (simp add: forEach.simps [of arr callback len k] Let_def)
    qed
  qed
qed

lemma well_formed_new: "well_formed new_emitter"
  by (simp add: well_formed_def new_emitter_def empty_table_def object_keys_def)

lemma add_to_keys:
  "distinct (object_keys (props t)) \<Longrightarrow>
   distinct (object_keys (props (snd (add_to ins e l limit t))))"
  by (simp add: add_to_def assign_new_array_def set_prop_distinct Let_def split: val.splits)

lemma well_formed_add:
  assumes "well_formed s"
  shows "well_formed (after (on e l s))" and "well_formed (after (once e l s))"
    and "well_formed (after (prependListener e l s))"
    and "well_formed (after (prependOnceListener e l s))"
  using assms add_to_keys [of "onListeners s" push e l "maxListeners s"]
    add_to_keys [of "onceListeners s" push e l "maxListeners s"]
    add_to_keys [of "onListeners s" unshift e l "maxListeners s"]
    add_to_keys [of "onceListeners s" unshift e l "maxListeners s"]
  by (simp_all add: well_formed_def after_def on_def once_def prependListener_def
      prependOnceListener_def case_prod_beta)

lemma off_block_props: "props (snd (off_block e l t)) = props t"
  by (simp add: off_block_def split: val.splits option.splits)

lemma well_formed_off: "well_formed s \<Longrightarrow> well_formed (after (off e l s))"
  using off_block_props [of e l "onceListeners s"] off_block_props [of e l "onListeners s"]
  by (auto simp: well_formed_def off_def after_def split: prod.splits option.splits)

text \<open>\<^verbatim>\<open>emit\<close> keeps the keys unique when the bodies it runs do.\<close>

lemma well_formed_emit:
  assumes bodies: "\<And>l s. well_formed s \<Longrightarrow> well_formed (snd (body l args s))"
    and "well_formed s"
  shows "well_formed (after (emit body e args s))"
proof -
  have first: "well_formed (snd (call_listener body args l s))" if "well_formed s" for l s
    using bodies [OF that] by (simp add: call_listener_def Let_def)
  have second: "well_formed (snd (call_then_off body e args l s))" if "well_formed s" for l s
    using bodies [OF that, of l] well_formed_off [of "snd (body l args s)" e l]
    by (cases "fst (fst (body l args s))")
       (simp_all add: call_then_off_def Let_def after_def case_prod_beta)
  have loop1: "well_formed (snd (forEach arr (call_listener body args) len k s calls))"
    if "well_formed s" for arr len k s calls
    using first that by (rule forEach_invariant)
  have loop2: "well_formed (snd (forEach arr (call_then_off body e args) len k s calls))"
    if "well_formed s" for arr len k s calls
    using second that by (rule forEach_invariant)
  show ?thesis
    using assms(2) loop1 [OF assms(2)] loop2 [OF loop1 [OF assms(2)]]
    by (simp add: emit_def after_def Let_def split: val.splits completion.splits)
qed

lemma well_formed_remove_event: "well_formed s \<Longrightarrow> well_formed (remove_event s e)"
  by (simp add: well_formed_def remove_event_def assign_undefined_def set_prop_distinct)

lemma well_formed_removeAllListeners:
  "well_formed s \<Longrightarrow> well_formed (after (removeAllListeners events s))"
proof -
  have "well_formed s \<Longrightarrow> well_formed (foldl remove_event s events)"
    by (induction events arbitrary: s) (simp_all add: well_formed_remove_event)
  then show "well_formed s \<Longrightarrow> well_formed (after (removeAllListeners events s))"
    by (simp add: removeAllListeners_def after_def truthy_array_def)
qed

lemma well_formed_setMaxListeners: "well_formed s \<Longrightarrow> well_formed (after (setMaxListeners n s))"
  by (simp add: well_formed_def setMaxListeners_def after_def)

section \<open>Event names\<close>

lemma eventNames_example: "fst (eventNames on_on_once_a) = [''a'']"
  by (simp add: on_on_once_a_def run_simps)

text \<open>
  C8. \<^verbatim>\<open>eventNames()\<close> returns, without repetition, exactly the events that are own keys
  with a value other than \<^verbatim>\<open>undefined\<close> in the persistent table or in the one-shot table:
  first those of the persistent table, in key order, then those of the one-shot table that
  are not among the former. After \<^verbatim>\<open>on('a', f)\<close>, \<^verbatim>\<open>on('a', g)\<close> and \<^verbatim>\<open>once('a', h)\<close> on a
  new emitter it returns \<open>['a']\<close>.
\<close>

theorem eventNames_union:
  "set (fst (eventNames s))
     = {k. own_defined (onListeners s) k \<or> own_defined (onceListeners s) k}
   \<and> distinct (fst (eventNames s))
   \<and> (well_formed s
        \<longrightarrow> fst (eventNames s)
            = defined_keys (onListeners s)
              @ filter (\<lambda>k. k \<notin> set (defined_keys (onListeners s)))
                  (defined_keys (onceListeners s)))
   \<and> fst (eventNames on_on_once_a) = [''a'']"
proof -
  have names: "fst (eventNames s)
      = filter_first_index (defined_keys (onListeners s) @ defined_keys (onceListeners s))"
    by (simp add: eventNames_def)
  show ?thesis
    by (auto simp: names filter_first_index_set filter_first_index_distinct defined_keys_set
        filter_first_index_append defined_keys_distinct eventNames_example well_formed_def)
qed

theorem eventNames_union_witness:
  "well_formed on_a_once_a_b \<and> fst (eventNames on_a_once_a_b) = [''a'', ''b'']"
proof -
  have wf: "well_formed on_a_once_a_b"
    by (simp add: on_a_once_a_b_def well_formed_add well_formed_new)
  have "defined_keys (onListeners on_a_once_a_b) = [''a'']"
    and "defined_keys (onceListeners on_a_once_a_b) = [''a'', ''b'']"
    by (simp_all add: on_a_once_a_b_def run_simps key_before_def array_index_def is_digit_def)
  with wf eventNames_union [of on_a_once_a_b] show ?thesis
    by simp
qed

section \<open>Removing, in general\<close>

lemma off_one_shot_miss:
  assumes "get_prop (onceListeners s) e = Array b" and "l \<notin> set (arrays (onceListeners s) b)"
  shows "off e l s = (Returns_this, s)"
proof -
  from assms(2) have "indexOf (arrays (onceListeners s) b) l = None"
    by (simp add: indexOf_None_iff)
  with assms(1) show ?thesis by (simp add: off_def off_block_def)
qed

lemma removeAllListeners_no_events: "removeAllListeners [] s = (Returns_this, s)"
  by (simp add: removeAllListeners_def truthy_array_def)

lemma get_prop_assign_undefined:
  "get_prop (assign_undefined k t) k' =
     (if k' = k \<and> (k \<in> fst ` set (props t) \<or> k \<noteq> ''__proto__'') then Undefined
      else get_prop t k')"
  by (auto simp: get_prop_def assign_undefined_def set_prop_lookup)

lemma remove_events_get:
  assumes "e \<in> set events" and "e \<noteq> ''__proto__''"
  shows "get_prop (onListeners (foldl remove_event s events)) e = Undefined"
    and "get_prop (onceListeners (foldl remove_event s events)) e = Undefined"
  using assms(1)
proof (atomize (full), induction events rule: rev_induct)
  case Nil
  then show ?case by simp
next
  case (snoc x xs)
  show ?case
  proof (cases "e = x")
    case True
    with assms(2) show ?thesis
      by (simp add: remove_event_def get_prop_assign_undefined)
  next
    case False
    with snoc show ?thesis
      by (simp add: remove_event_def get_prop_assign_undefined)
  qed
qed

lemma removeAllListeners_events:
  assumes "e \<in> set events" and "e \<noteq> ''__proto__''"
  shows "fst (listenerCount e (after (removeAllListeners events s))) = 0"
    and "fst (listeners e (after (removeAllListeners events s))) = Returns []"
    and "e \<notin> set (fst (eventNames (after (removeAllListeners events s))))"
    and "returned (emit body e args (after (removeAllListeners events s))) = Returns False"
proof -
  let ?s' = "after (removeAllListeners events s)"
  from remove_events_get [OF assms, of s]
  have read: "get_prop (onListeners ?s') e = Undefined" "get_prop (onceListeners ?s') e = Undefined"
    by (simp_all add: removeAllListeners_def truthy_array_def after_def)
  then have "\<not> own_defined (onListeners ?s') e" "\<not> own_defined (onceListeners ?s') e"
    by (auto simp: own_defined_def get_prop_def split: option.splits)
  then show "e \<notin> set (fst (eventNames ?s'))"
    by (simp add: eventNames_def filter_first_index_set defined_keys_set)
  from read show "fst (listenerCount e ?s') = 0"
    by (simp add: listenerCount_def length_or_0_def js_length_def)
  from read show "fst (listeners e ?s') = Returns []"
    by (simp add: listeners_def)
  from read show "returned (emit body e args ?s') = Returns False"
    by (simp add: emit_def falsy_def returned_def)
qed

end
